theory Spec2Isabelle
  imports Main
begin

section \<open>The code-block decoration mapper of the rich-text example\<close>

text \<open>
  The development embeds \<^verbatim>\<open>getContent\<close> and \<^verbatim>\<open>decorateNode\<close> of
  \<^verbatim>\<open>src/examples/rich-text/index.js\<close>. JavaScript strings are modelled as
  \<^typ>\<open>string\<close>, one list element per code unit, so that \<^verbatim>\<open>s.length\<close> is
  \<^term>\<open>length s\<close>; JavaScript numbers, which stay integral here, are \<^typ>\<open>int\<close>.
\<close>

subsection \<open>Data\<close>

text \<open>
  A Prism token is either a plain string or an object with a \<^verbatim>\<open>type\<close> and a
  \<^verbatim>\<open>content\<close>; the content of an object is a string (\<open>Leaf\<close>) or an array of
  tokens (\<open>Nested\<close>).
\<close>

datatype token =
    Plain string
  | Leaf string string
  | Nested string "token list"

fun is_string :: "token \<Rightarrow> bool" where
  "is_string (Plain s) = True"
| "is_string (Leaf ty s) = False"
| "is_string (Nested ty ts) = False"

fun token_type :: "token \<Rightarrow> string" where
  "token_type (Plain s) = []"
| "token_type (Leaf ty s) = ty"
| "token_type (Nested ty ts) = ty"

text \<open>A Slate text node, as far as the mapper reads it: its \<^verbatim>\<open>key\<close> and its
  \<^verbatim>\<open>text\<close> (field \<open>text_of\<close>).\<close>

record text_node =
  key :: string
  text_of :: string

datatype mark = Mark string

record range =
  anchorKey :: string
  anchorOffset :: int
  focusKey :: string
  focusOffset :: int
  marks :: "mark list"

text \<open>
  The node handed to \<^verbatim>\<open>decorateNode\<close>: its type, its data map and the text nodes
  \<^verbatim>\<open>node.getTexts()\<close> yields, in document order.
\<close>

record node =
  ntype :: string
  data :: "string \<rightharpoonup> string"
  getTexts :: "text_node list"

datatype error = TypeError

subsection \<open>String helpers of the host language\<close>

text \<open>\<^verbatim>\<open>Array.prototype.join\<close> on an array of strings.\<close>

fun js_join :: "string \<Rightarrow> string list \<Rightarrow> string" where
  "js_join sep [] = []"
| "js_join sep [x] = x"
| "js_join sep (x # y # ys) = x @ sep @ js_join sep (y # ys)"

text \<open>\<^verbatim>\<open>String.prototype.split\<close> with a one-character separator.\<close>

fun js_split :: "char \<Rightarrow> string \<Rightarrow> string list" where
  "js_split sep [] = [[]]"
| "js_split sep (c # cs) =
     (if c = sep then [] # js_split sep cs
      else (case js_split sep cs of
              [] \<Rightarrow> [[c]]
            | p # ps \<Rightarrow> (c # p) # ps))"

definition newline :: char where
  "newline = CHR 0x0A"

text \<open>\<^verbatim>\<open>Array.prototype.shift\<close>: the removed head (undefined on an empty array) and the rest.\<close>

fun shift :: "'a list \<Rightarrow> 'a option \<times> 'a list" where
  "shift [] = (None, [])"
| "shift (x # xs) = (Some x, xs)"

text \<open>A property key made from a possibly undefined value, as \<^verbatim>\<open>obj[v]\<close> does.\<close>

fun property_key :: "string option \<Rightarrow> string" where
  "property_key None = ''undefined''"
| "property_key (Some k) = k"

subsection \<open>getContent\<close>

fun getContent :: "token \<Rightarrow> string" where
  "getContent (Plain s) = s"
| "getContent (Leaf ty s) = s"
| "getContent (Nested ty ts) = js_join [] (map getContent ts)"

subsection \<open>decorateNode\<close>

text \<open>
  The mutable variables of \<^verbatim>\<open>decorateNode\<close> that live across tokens. \<open>startText\<close> and
  \<open>endText\<close> are \<open>None\<close> when they hold \<^verbatim>\<open>undefined\<close>, which is what the first
  \<^verbatim>\<open>texts.shift()\<close> yields on an empty array.
\<close>

record vars =
  texts :: "text_node list"
  startText :: "text_node option"
  endText :: "text_node option"
  startOffset :: int
  endOffset :: int
  start :: int
  decorations :: "range list"

text \<open>
  The inner \<^verbatim>\<open>while (available < remaining && texts.length > 0)\<close> loop. The
  block-local \<open>available\<close> and \<open>remaining\<close> are arguments; \<open>len\<close> is the constant
  \<^verbatim>\<open>length\<close> of the current token. \<open>None\<close> stands for a loop that does not return,
  \<open>Some (Inl e)\<close> for a raised error.
\<close>

partial_function (option) while_loop ::
  "int \<Rightarrow> int \<Rightarrow> int \<Rightarrow> vars \<Rightarrow> (error + vars) option" where
  "while_loop len available remaining s =
     (if available < remaining \<and> length (texts s) > 0
      then (case shift (texts s) of
              (None, rest) \<Rightarrow> Some (Inl TypeError)
            | (Some t, rest) \<Rightarrow>
                while_loop len (int (length (text_of t))) (len - available)
                  (s\<lparr>texts := rest, endText := Some t, endOffset := len - available\<rparr>))
      else Some (Inr s))"

declare while_loop.simps [code]

text \<open>
  One iteration of \<^verbatim>\<open>for (const token of tokens)\<close>. Reading \<^verbatim>\<open>.text\<close> or
  \<^verbatim>\<open>.key\<close> of \<^verbatim>\<open>undefined\<close> raises a TypeError.
\<close>

definition token_length :: "token \<Rightarrow> int" where
  "token_length token =
     (let content = getContent token;
          newlines = int (length (js_split newline content)) - 1
      in int (length content) - newlines)"

definition for_body :: "token \<Rightarrow> vars \<Rightarrow> (error + vars) option" where
  "for_body token s =
     (let s1 = s\<lparr>startText := endText s, startOffset := endOffset s\<rparr>;
          len = token_length token;
          end' = start s1 + len
      in case startText s1 of
           None \<Rightarrow> Some (Inl TypeError)
         | Some st \<Rightarrow>
            (let available = int (length (text_of st)) - startOffset s1;
                 remaining = len;
                 s2 = s1\<lparr>endOffset := startOffset s1 + remaining\<rparr>
             in case while_loop len available remaining s2 of
                  None \<Rightarrow> None
                | Some (Inl e) \<Rightarrow> Some (Inl e)
                | Some (Inr s3) \<Rightarrow>
                   (if \<not> is_string token
                    then (case endText s3 of
                            None \<Rightarrow> Some (Inl TypeError)
                          | Some et \<Rightarrow>
                              Some (Inr (s3\<lparr>decorations := decorations s3 @
                                 [\<lparr>anchorKey = key st, anchorOffset = startOffset s3,
                                   focusKey = key et, focusOffset = endOffset s3,
                                   marks = [Mark (token_type token)]\<rparr>],
                                 start := end'\<rparr>)))
                    else Some (Inr (s3\<lparr>start := end'\<rparr>)))))"

fun for_tokens :: "token list \<Rightarrow> vars \<Rightarrow> (error + vars) option" where
  "for_tokens [] s = Some (Inr s)"
| "for_tokens (token # tokens) s =
     (case for_body token s of
        None \<Rightarrow> None
      | Some (Inl e) \<Rightarrow> Some (Inl e)
      | Some (Inr s') \<Rightarrow> for_tokens tokens s')"

text \<open>
  The part of \<^verbatim>\<open>decorateNode\<close> after tokenization: the initial variables, the loop
  over the tokens, and the returned \<^verbatim>\<open>decorations\<close>.
\<close>

definition decorate_tokens :: "text_node list \<Rightarrow> token list \<Rightarrow> (error + range list) option" where
  "decorate_tokens txts tokens =
     (case shift txts of (first, rest) \<Rightarrow>
        (case for_tokens tokens
                \<lparr>texts = rest, startText = first, endText = first,
                 startOffset = 0, endOffset = 0, start = 0, decorations = []\<rparr> of
           None \<Rightarrow> None
         | Some (Inl e) \<Rightarrow> Some (Inl e)
         | Some (Inr s) \<Rightarrow> Some (Inr (decorations s))))"

text \<open>
  \<^verbatim>\<open>decorateNode\<close> itself. \<^verbatim>\<open>Prism.languages\<close> and \<^verbatim>\<open>Prism.tokenize\<close> belong to
  the tokenizer library and are parameters: \<open>languages\<close> is the grammar registry, and
  \<open>tokenize\<close> receives the joined string and the looked-up grammar (\<open>None\<close> when the
  registry has no entry) and either raises or returns a token stream. The result
  \<open>Inr None\<close> is the \<^verbatim>\<open>undefined\<close> returned for a node that is not a code block.
\<close>

definition decorateNode ::
  "(string \<rightharpoonup> 'g) \<Rightarrow> (string \<Rightarrow> 'g option \<Rightarrow> error + token list) \<Rightarrow> node
     \<Rightarrow> (error + range list option) option" where
  "decorateNode languages tokenize node =
     (if ntype node \<noteq> ''code'' then Some (Inr None)
      else
        (let language = data node ''language'';
             txts = getTexts node;
             string = js_join [newline] (map text_of txts);
             grammar = languages (property_key language)
         in case tokenize string grammar of
              Inl e \<Rightarrow> Some (Inl e)
            | Inr tokens \<Rightarrow>
               (case decorate_tokens txts tokens of
                  None \<Rightarrow> None
                | Some (Inl e) \<Rightarrow> Some (Inl e)
                | Some (Inr ds) \<Rightarrow> Some (Inr (Some ds)))))"

subsection \<open>Notions used to state the properties\<close>

text \<open>
  The flattened textual content of a token as the specification words it: the token itself
  when it is a string, its content when that is a string, and otherwise the contents of
  the nested tokens, flattened and concatenated in order with nothing in between.
\<close>

fun getContent_spec :: "token \<Rightarrow> string" where
  "getContent_spec (Plain s) = s"
| "getContent_spec (Leaf ty s) = s"
| "getContent_spec (Nested ty ts) = concat (map getContent_spec ts)"

text \<open>The number of characters in a list of text nodes.\<close>

definition total_length :: "text_node list \<Rightarrow> int" where
  "total_length txts = sum_list (map (\<lambda>t. int (length (text_of t))) txts)"

text \<open>
  The position of a text node in the node's list of texts, found by its key, and the
  (segment index, offset) positions of the two ends of a range. Positions are compared
  lexicographically.
\<close>

fun index_of :: "string \<Rightarrow> text_node list \<Rightarrow> nat" where
  "index_of k [] = 0"
| "index_of k (t # ts) = (if key t = k then 0 else Suc (index_of k ts))"

definition anchor_pos :: "text_node list \<Rightarrow> range \<Rightarrow> nat \<times> int" where
  "anchor_pos all r = (index_of (anchorKey r) all, anchorOffset r)"

definition focus_pos :: "text_node list \<Rightarrow> range \<Rightarrow> nat \<times> int" where
  "focus_pos all r = (index_of (focusKey r) all, focusOffset r)"

definition pos_le :: "nat \<times> int \<Rightarrow> nat \<times> int \<Rightarrow> bool" where
  "pos_le p q = (fst p < fst q \<or> (fst p = fst q \<and> snd p \<le> snd q))"

text \<open>
  What a list of ranges satisfies while the cursor stands at position \<open>c\<close>: every range
  ends at or after its start, on a text of the node, and starts at or before \<open>c\<close>; and
  the starts are in non-decreasing order.
\<close>

definition ranges_ok :: "text_node list \<Rightarrow> nat \<times> int \<Rightarrow> range list \<Rightarrow> bool" where
  "ranges_ok all c rs =
     (list_all (\<lambda>r. pos_le (anchor_pos all r) (focus_pos all r) \<and>
                     fst (focus_pos all r) < length all \<and>
                     pos_le (anchor_pos all r) c) rs \<and>
      sorted_wrt (\<lambda>r r'. pos_le (anchor_pos all r) (anchor_pos all r')) rs)"

text \<open>The ranges one token adds: none for a plain string, one for a token object.\<close>

definition emitted :: "token \<Rightarrow> range \<Rightarrow> range list" where
  "emitted token r = (if is_string token then [] else [r])"

text \<open>
  Two tokenizers to instantiate the parameter with. \<open>given_tokens\<close> answers with a fixed
  token stream. \<open>strict_tokenize\<close> reads a property of its grammar before anything else,
  as \<^verbatim>\<open>Prism.tokenize\<close> does with \<^verbatim>\<open>grammar.rest\<close>, so it raises a TypeError on an
  undefined grammar; on a grammar it returns the text as one plain token.
\<close>

definition given_tokens :: "token list \<Rightarrow> string \<Rightarrow> unit option \<Rightarrow> error + token list" where
  "given_tokens tokens string grammar = Inr tokens"

fun strict_tokenize :: "string \<Rightarrow> unit option \<Rightarrow> error + token list" where
  "strict_tokenize string None = Inl TypeError"
| "strict_tokenize string (Some grammar) = Inr [Plain string]"

text \<open>The strings at the leaves of a token, from left to right.\<close>

fun leaf_strings :: "token \<Rightarrow> string list" where
  "leaf_strings (Plain s) = [s]"
| "leaf_strings (Leaf ty s) = [s]"
| "leaf_strings (Nested ty ts) = concat (map leaf_strings ts)"

text \<open>A grammar registry that knows one language, for the examples.\<close>

definition js_languages :: "string \<rightharpoonup> unit" where
  "js_languages = [''js'' \<mapsto> ()]"

section \<open>Properties of the helpers and of the loops\<close>

subsection \<open>Strings and token lengths\<close>

lemma length_js_split: "length (js_split sep s) = Suc (length (filter (\<lambda>c. c = sep) s))"
  by (induction s) (auto split: list.splits)

lemma token_length_count:
  "token_length token = int (length (filter (\<lambda>c. c \<noteq> newline) (getContent token)))"
proof -
  have "length (getContent token) =
        length (filter (\<lambda>c. c = newline) (getContent token)) +
        length (filter (\<lambda>c. c \<noteq> newline) (getContent token))"
    by (rule sum_length_filter_compl [symmetric])
  then show ?thesis
    by (simp add: token_length_def Let_def length_js_split)
qed

lemma token_length_nonneg: "0 \<le> token_length token"
  by (simp add: token_length_count)

subsection \<open>The cursor as an index into the list of texts\<close>

lemma while_loop_index:
  assumes "n = length all - Suc j" "j < length all"
    "endText s = Some (all ! j)" "texts s = drop (Suc j) all"
  shows "\<exists>s' j'. while_loop len av rem s = Some (Inr s') \<and>
           j \<le> j' \<and> j' < length all \<and>
           endText s' = Some (all ! j') \<and> texts s' = drop (Suc j') all \<and>
           (j' = j \<longrightarrow> s' = s) \<and>
           startText s' = startText s \<and> startOffset s' = startOffset s \<and>
           start s' = start s \<and> decorations s' = decorations s"
  using assms
proof (induction n arbitrary: j s av rem)
  case 0
  then have "texts s = []" by simp
  then have "while_loop len av rem s = Some (Inr s)"
    by (subst while_loop.simps) simp
  with 0 show ?case by auto
next
  case (Suc n)
  show ?case
  proof (cases "av < rem")
    case False
    then have "while_loop len av rem s = Some (Inr s)"
      by (subst while_loop.simps) simp
    with Suc.prems show ?thesis by auto
  next
    case True
    from Suc.prems have lt: "Suc j < length all" by simp
    then have tx: "texts s = all ! Suc j # drop (Suc (Suc j)) all"
      using Suc.prems(4) by (simp add: Cons_nth_drop_Suc)
    let ?s1 = "s\<lparr>texts := drop (Suc (Suc j)) all, endText := Some (all ! Suc j),
                  endOffset := len - av\<rparr>"
    have unf: "while_loop len av rem s =
               while_loop len (int (length (text_of (all ! Suc j)))) (len - av) ?s1"
      using True tx by (subst while_loop.simps) simp
    have "n = length all - Suc (Suc j)" using Suc.prems(1) by simp
    from Suc.IH [OF this lt, of ?s1 "int (length (text_of (all ! Suc j)))" "len - av"]
    obtain s' j' where
      "while_loop len (int (length (text_of (all ! Suc j)))) (len - av) ?s1 = Some (Inr s')"
      "Suc j \<le> j'" "j' < length all" "endText s' = Some (all ! j')"
      "texts s' = drop (Suc j') all"
      "startText s' = startText s" "startOffset s' = startOffset s"
      "start s' = start s" "decorations s' = decorations s"
      by auto
    with unf show ?thesis by (intro exI [of _ s'] exI [of _ j']) auto
  qed
qed

lemma for_body_index:
  assumes "j < length all" "endText s = Some (all ! j)" "texts s = drop (Suc j) all"
  shows "\<exists>s' j'. for_body token s = Some (Inr s') \<and>
           j \<le> j' \<and> j' < length all \<and>
           endText s' = Some (all ! j') \<and> texts s' = drop (Suc j') all \<and>
           (j' = j \<longrightarrow> endOffset s' = endOffset s + token_length token) \<and>
           decorations s' = decorations s @
             emitted token
               \<lparr>anchorKey = key (all ! j), anchorOffset = endOffset s,
                focusKey = key (all ! j'), focusOffset = endOffset s',
                marks = [Mark (token_type token)]\<rparr>"
proof -
  let ?len = "token_length token"
  let ?s2 = "s\<lparr>startText := endText s, startOffset := endOffset s,
               endOffset := endOffset s + ?len\<rparr>"
  have "endText ?s2 = Some (all ! j)" "texts ?s2 = drop (Suc j) all"
    using assms by simp_all
  from while_loop_index [OF refl assms(1) this,
      of ?len "int (length (text_of (all ! j))) - endOffset s" ?len]
  obtain s3 j' where w:
    "while_loop ?len (int (length (text_of (all ! j))) - endOffset s) ?len ?s2 = Some (Inr s3)"
    "j \<le> j'" "j' < length all" "endText s3 = Some (all ! j')"
    "texts s3 = drop (Suc j') all" "j' = j \<longrightarrow> s3 = ?s2"
    "startText s3 = startText ?s2" "startOffset s3 = startOffset ?s2"
    "start s3 = start ?s2" "decorations s3 = decorations ?s2"
    by blast
  show ?thesis
  proof (cases "is_string token")
    case True
    with w assms have "for_body token s = Some (Inr (s3\<lparr>start := start s + ?len\<rparr>))"
      by (simp add: for_body_def Let_def)
    with w True show ?thesis
      by (intro exI [of _ "s3\<lparr>start := start s + ?len\<rparr>"] exI [of _ j'])
         (auto simp: emitted_def)
  next
    case False
    let ?r = "\<lparr>anchorKey = key (all ! j), anchorOffset = endOffset s,
                focusKey = key (all ! j'), focusOffset = endOffset s3,
                marks = [Mark (token_type token)]\<rparr>"
    let ?s' = "s3\<lparr>decorations := decorations s3 @ [?r], start := start s + ?len\<rparr>"
    from w assms False have "for_body token s = Some (Inr ?s')"
      by (simp add: for_body_def Let_def)
    with w False show ?thesis
      by (intro exI [of _ ?s'] exI [of _ j']) (auto simp: emitted_def)
  qed
qed

lemma index_of_nth:
  "distinct (map key all) \<Longrightarrow> i < length all \<Longrightarrow> index_of (key (all ! i)) all = i"
proof (induction all arbitrary: i)
  case Nil
  then show ?case by simp
next
  case (Cons t ts)
  show ?case
  proof (cases i)
    case 0
    then show ?thesis by simp
  next
    case (Suc m)
    with Cons.prems have "m < length ts" "key (ts ! m) \<in> set (map key ts)" by auto
    with Cons.prems have "key t \<noteq> key (ts ! m)" by auto
    with Suc Cons show ?thesis by simp
  qed
qed

lemma pos_le_refl: "pos_le p p"
  by (simp add: pos_le_def)

lemma pos_le_trans: "pos_le p q \<Longrightarrow> pos_le q r \<Longrightarrow> pos_le p r"
  by (auto simp: pos_le_def)

lemma ranges_ok_mono:
  "ranges_ok all c rs \<Longrightarrow> pos_le c c' \<Longrightarrow> ranges_ok all c' rs"
  unfolding ranges_ok_def list_all_iff using pos_le_trans by blast

lemma ranges_ok_snoc:
  assumes "ranges_ok all c rs" "anchor_pos all r = c" "pos_le c (focus_pos all r)"
    "fst (focus_pos all r) < length all"
  shows "ranges_ok all c (rs @ [r])"
  using assms unfolding ranges_ok_def list_all_iff
  by (auto simp: sorted_wrt_append pos_le_refl)

lemma for_tokens_index:
  assumes "j < length all" "endText s = Some (all ! j)" "texts s = drop (Suc j) all"
  shows "\<exists>s' j'. for_tokens tokens s = Some (Inr s') \<and>
           j \<le> j' \<and> j' < length all \<and>
           endText s' = Some (all ! j') \<and> texts s' = drop (Suc j') all \<and>
           map marks (decorations s') =
             map marks (decorations s) @
             map (\<lambda>t. [Mark (token_type t)]) (filter (\<lambda>t. \<not> is_string t) tokens)"
  using assms
proof (induction tokens arbitrary: s j)
  case Nil
  then show ?case by auto
next
  case (Cons token tokens)
  from for_body_index [OF Cons.prems, of token]
  obtain s1 j1 where b: "for_body token s = Some (Inr s1)" "j \<le> j1" "j1 < length all"
    "endText s1 = Some (all ! j1)" "texts s1 = drop (Suc j1) all"
    "map marks (decorations s1) =
       map marks (decorations s) @ (if is_string token then [] else [[Mark (token_type token)]])"
    by (auto simp: emitted_def)
  from Cons.IH [OF b(3,4,5)]
  obtain s' j' where f: "for_tokens tokens s1 = Some (Inr s')" "j1 \<le> j'" "j' < length all"
    "endText s' = Some (all ! j')" "texts s' = drop (Suc j') all"
    "map marks (decorations s') =
       map marks (decorations s1) @
       map (\<lambda>t. [Mark (token_type t)]) (filter (\<lambda>t. \<not> is_string t) tokens)"
    by blast
  from b f show ?case
    by (intro exI [of _ s'] exI [of _ j']) auto
qed

lemma for_tokens_positions:
  assumes "distinct (map key all)"
    "j < length all" "endText s = Some (all ! j)" "texts s = drop (Suc j) all"
    "ranges_ok all (j, endOffset s) (decorations s)"
    "for_tokens tokens s = Some (Inr s')"
  shows "\<exists>c. ranges_ok all c (decorations s')"
  using assms(2-)
proof (induction tokens arbitrary: s j)
  case Nil
  then show ?case by auto
next
  case (Cons token tokens)
  let ?c = "(j, endOffset s)"
  from for_body_index [OF Cons.prems(1,2,3), of token]
  obtain s1 j1 where b: "for_body token s = Some (Inr s1)" "j \<le> j1" "j1 < length all"
    "endText s1 = Some (all ! j1)" "texts s1 = drop (Suc j1) all"
    "j1 = j \<longrightarrow> endOffset s1 = endOffset s + token_length token"
    "decorations s1 = decorations s @
       emitted token
         \<lparr>anchorKey = key (all ! j), anchorOffset = endOffset s,
          focusKey = key (all ! j1), focusOffset = endOffset s1,
          marks = [Mark (token_type token)]\<rparr>"
    by blast
  let ?r = "\<lparr>anchorKey = key (all ! j), anchorOffset = endOffset s,
             focusKey = key (all ! j1), focusOffset = endOffset s1,
             marks = [Mark (token_type token)]\<rparr>"
  let ?c1 = "(j1, endOffset s1)"
  have adv: "pos_le ?c ?c1"
    using b(2,6) token_length_nonneg [of token] by (auto simp: pos_le_def)
  have a: "anchor_pos all ?r = ?c"
    using assms(1) Cons.prems(1) by (simp add: anchor_pos_def index_of_nth)
  have f: "focus_pos all ?r = ?c1"
    using assms(1) b(3) by (simp add: focus_pos_def index_of_nth)
  have "ranges_ok all ?c (decorations s @ emitted token ?r)"
  proof (cases "is_string token")
    case True
    with Cons.prems(4) show ?thesis by (simp add: emitted_def)
  next
    case False
    have "ranges_ok all ?c (decorations s @ [?r])"
      using Cons.prems(4) a
    proof (rule ranges_ok_snoc)
      show "pos_le ?c (focus_pos all ?r)" using adv f by simp
      show "fst (focus_pos all ?r) < length all" using f b(3) by simp
    qed
    with False show ?thesis by (simp add: emitted_def)
  qed
  then have ok1: "ranges_ok all ?c1 (decorations s1)"
    using adv b(7) ranges_ok_mono by simp
  from Cons.prems(5) b(1) have "for_tokens tokens s1 = Some (Inr s')" by simp
  from Cons.IH [OF b(3,4,5) ok1 this] show ?case .
qed

subsection \<open>Flattening, termination and overflow\<close>

lemma js_join_empty_sep: "js_join [] xs = concat xs"
  by (induction "[] :: string" xs rule: js_join.induct) simp_all

lemma getContent_refines_spec: "getContent token = getContent_spec token"
proof (induction token)
  case (Plain s)
  show ?case by simp
next
  case (Leaf ty s)
  show ?case by simp
next
  case (Nested ty ts)
  then have "map getContent ts = map getContent_spec ts" by simp
  then show ?case by (simp only: getContent.simps getContent_spec.simps js_join_empty_sep)
qed

lemma while_loop_returns:
  "\<exists>s'. while_loop len av rem s = Some (Inr s') \<and> length (texts s') \<le> length (texts s)"
proof (induction "texts s" arbitrary: s av rem)
  case Nil
  then have "while_loop len av rem s = Some (Inr s)"
    by (subst while_loop.simps) simp
  then show ?case by simp
next
  case (Cons t ts)
  show ?case
  proof (cases "av < rem")
    case False
    then have "while_loop len av rem s = Some (Inr s)"
      by (subst while_loop.simps) simp
    then show ?thesis by simp
  next
    case True
    let ?s1 = "s\<lparr>texts := ts, endText := Some t, endOffset := len - av\<rparr>"
    have unf: "while_loop len av rem s =
               while_loop len (int (length (text_of t))) (len - av) ?s1"
      using True Cons.hyps(2) [symmetric] by (subst while_loop.simps) simp
    have "ts = texts ?s1" by simp
    from Cons.hyps(1) [OF this, of "int (length (text_of t))" "len - av"]
    obtain s' where
      "while_loop len (int (length (text_of t))) (len - av) ?s1 = Some (Inr s')"
      "length (texts s') \<le> length ts"
      by auto
    with unf Cons.hyps(2) [symmetric] show ?thesis by auto
  qed
qed

lemma for_body_returns: "\<exists>r. for_body token s = Some r"
proof (cases "endText s")
  case None
  then show ?thesis by (simp add: for_body_def Let_def)
next
  case (Some st)
  let ?len = "token_length token"
  let ?s2 = "s\<lparr>startText := endText s, startOffset := endOffset s,
               endOffset := endOffset s + ?len\<rparr>"
  from while_loop_returns [of ?len "int (length (text_of st)) - endOffset s" ?len ?s2]
  obtain s3 where
    "while_loop ?len (int (length (text_of st)) - endOffset s) ?len ?s2 = Some (Inr s3)"
    by blast
  with Some show ?thesis
    by (simp add: for_body_def Let_def split: option.split)
qed

lemma for_tokens_returns: "\<exists>r. for_tokens tokens s = Some r"
proof (induction tokens arbitrary: s)
  case Nil
  show ?case by simp
next
  case (Cons token tokens)
  from for_body_returns [of token s] obtain r where r: "for_body token s = Some r" ..
  show ?case
  proof (cases r)
    case (Inl e)
    with r show ?thesis by simp
  next
    case (Inr s1)
    with r Cons.IH [of s1] show ?thesis by simp
  qed
qed

lemma decorate_tokens_returns: "\<exists>r. decorate_tokens txts tokens = Some r"
proof -
  obtain first rest where sh: "shift txts = (first, rest)" by (cases "shift txts")
  let ?s0 = "\<lparr>texts = rest, startText = first, endText = first,
              startOffset = 0, endOffset = 0, start = 0, decorations = []\<rparr>"
  from for_tokens_returns [of tokens ?s0] obtain r where "for_tokens tokens ?s0 = Some r" ..
  with sh show ?thesis
    by (cases r) (simp_all add: decorate_tokens_def)
qed

lemma while_loop_overflow:
  assumes "endText s = Some e" "av = int (length (text_of e))" "0 \<le> x" "rem = len - x"
    "endOffset s = rem" "x + av + total_length (texts s) < len"
  shows "\<exists>s'. while_loop len av rem s = Some (Inr s') \<and> texts s' = [] \<and>
           endText s' = Some (last (e # texts s)) \<and>
           int (length (text_of (last (e # texts s)))) < endOffset s' \<and>
           startText s' = startText s \<and> startOffset s' = startOffset s \<and>
           decorations s' = decorations s"
  using assms
proof (induction "texts s" arbitrary: s e av rem x)
  case Nil
  then have "while_loop len av rem s = Some (Inr s)"
    by (subst while_loop.simps) simp
  with Nil.prems Nil.hyps [symmetric] show ?case
    by (simp add: total_length_def)
next
  case (Cons t ts)
  have tx: "texts s = t # ts" using Cons.hyps(2) by simp
  have nonneg: "0 \<le> total_length ts"
    unfolding total_length_def by (rule sum_list_nonneg) auto
  have split: "total_length (texts s) = int (length (text_of t)) + total_length ts"
    by (simp add: tx total_length_def)
  have lt: "av < rem" using Cons.prems nonneg split by simp
  let ?s1 = "s\<lparr>texts := ts, endText := Some t, endOffset := len - av\<rparr>"
  have unf: "while_loop len av rem s =
             while_loop len (int (length (text_of t))) (len - av) ?s1"
    using lt tx by (subst while_loop.simps) simp
  have "\<exists>s'. while_loop len (int (length (text_of t))) (len - av) ?s1 = Some (Inr s') \<and>
          texts s' = [] \<and> endText s' = Some (last (t # texts ?s1)) \<and>
          int (length (text_of (last (t # texts ?s1)))) < endOffset s' \<and>
          startText s' = startText ?s1 \<and> startOffset s' = startOffset ?s1 \<and>
          decorations s' = decorations ?s1"
  proof (rule Cons.hyps(1) [where x = av])
    show "ts = texts ?s1" by simp
    show "endText ?s1 = Some t" by simp
    show "0 \<le> av" using Cons.prems(2) by simp
    show "av + int (length (text_of t)) + total_length (texts ?s1) < len"
      using Cons.prems split by simp
  qed simp_all
  with unf tx show ?case by auto
qed

subsection \<open>The whole function\<close>

lemma decorateNode_code:
  assumes "ntype node = ''code''"
    "tokenize (js_join [newline] (map text_of (getTexts node)))
       (languages (property_key (data node ''language''))) = Inr tokens"
  shows "decorateNode languages tokenize node =
           (case decorate_tokens (getTexts node) tokens of
              None \<Rightarrow> None
            | Some (Inl e) \<Rightarrow> Some (Inl e)
            | Some (Inr ds) \<Rightarrow> Some (Inr (Some ds)))"
  using assms by (simp add: decorateNode_def Let_def)

lemma decorate_tokens_marks:
  assumes "txts \<noteq> []"
  shows "\<exists>rs. decorate_tokens txts tokens = Some (Inr rs) \<and>
           map marks rs =
             map (\<lambda>t. [Mark (token_type t)]) (filter (\<lambda>t. \<not> is_string t) tokens)"
proof -
  from assms obtain t rest where txts: "txts = t # rest" by (cases txts) auto
  let ?s0 = "\<lparr>texts = rest, startText = Some t, endText = Some t,
              startOffset = 0, endOffset = 0, start = 0, decorations = []\<rparr>"
  have "0 < length txts" "endText ?s0 = Some (txts ! 0)" "texts ?s0 = drop (Suc 0) txts"
    by (simp_all add: txts)
  from for_tokens_index [OF this, of tokens]
  obtain s' where "for_tokens tokens ?s0 = Some (Inr s')"
    "map marks (decorations s') =
       map (\<lambda>t. [Mark (token_type t)]) (filter (\<lambda>t. \<not> is_string t) tokens)"
    by auto
  then show ?thesis by (simp add: decorate_tokens_def txts)
qed

lemma for_tokens_undefined_text:
  assumes "endText s = None" "for_tokens tokens s = Some (Inr s')"
  shows "s' = s"
  using assms by (cases tokens) (simp_all add: for_body_def Let_def)

lemma decorate_tokens_positions:
  assumes "distinct (map key txts)" "decorate_tokens txts tokens = Some (Inr rs)"
  shows "\<exists>c. ranges_ok txts c rs"
proof (cases txts)
  case Nil
  let ?s0 = "\<lparr>texts = [], startText = None, endText = None,
              startOffset = 0, endOffset = 0, start = 0, decorations = []\<rparr>"
  from assms(2) Nil obtain s' where f: "for_tokens tokens ?s0 = Some (Inr s')"
    and rs: "rs = decorations s'"
    by (auto simp: decorate_tokens_def split: option.splits sum.splits)
  have "endText ?s0 = None" by simp
  from for_tokens_undefined_text [OF this f] rs have "rs = []" by simp
  then show ?thesis by (simp add: ranges_ok_def)
next
  case (Cons t rest)
  let ?s0 = "\<lparr>texts = rest, startText = Some t, endText = Some t,
              startOffset = 0, endOffset = 0, start = 0, decorations = []\<rparr>"
  from assms(2) Cons obtain s' where f: "for_tokens tokens ?s0 = Some (Inr s')"
    and rs: "rs = decorations s'"
    by (auto simp: decorate_tokens_def split: option.splits sum.splits)
  have "0 < length txts" "endText ?s0 = Some (txts ! 0)" "texts ?s0 = drop (Suc 0) txts"
    "ranges_ok txts (0, endOffset ?s0) (decorations ?s0)"
    by (simp_all add: Cons ranges_ok_def)
  from for_tokens_positions [OF assms(1) this f] rs show ?thesis by simp
qed

lemma concat_map_concat: "concat (map concat xss) = concat (concat xss)"
  by (induction xss) simp_all

lemma getContent_spec_leaves: "getContent_spec token = concat (leaf_strings token)"
proof (induction token)
  case (Plain s)
  show ?case by simp
next
  case (Leaf ty s)
  show ?case by simp
next
  case (Nested ty ts)
  then have eq: "map getContent_spec ts = map (\<lambda>t. concat (leaf_strings t)) ts" by simp
  have "concat (map getContent_spec ts) = concat (map concat (map leaf_strings ts))"
    unfolding eq by (simp add: comp_def)
  then show ?case by (simp only: getContent_spec.simps leaf_strings.simps concat_map_concat)
qed

lemma decorate_tokens_fitting_token:
  assumes "\<not> is_string token" "token_length token \<le> int (length (text_of t))"
  shows "decorate_tokens (t # rest) [token] =
           Some (Inr [\<lparr>anchorKey = key t, anchorOffset = 0, focusKey = key t,
                       focusOffset = token_length token,
                       marks = [Mark (token_type token)]\<rparr>])"
proof -
  let ?len = "token_length token"
  let ?s2 = "\<lparr>texts = rest, startText = Some t, endText = Some t,
              startOffset = 0, endOffset = ?len, start = 0, decorations = []\<rparr>"
  have "while_loop ?len (int (length (text_of t))) ?len ?s2 = Some (Inr ?s2)"
    using assms(2) by (subst while_loop.simps) simp
  with assms(1) show ?thesis
    by (simp add: decorate_tokens_def for_body_def Let_def)
qed

lemma decorate_tokens_overlong_token:
  assumes "txts \<noteq> []" "\<not> is_string token" "total_length txts < token_length token"
  shows "\<exists>r. decorate_tokens txts [token] = Some (Inr [r]) \<and>
           focusKey r = key (last txts) \<and>
           int (length (text_of (last txts))) < focusOffset r"
proof -
  from assms(1) obtain t rest where txts: "txts = t # rest" by (cases txts) auto
  let ?len = "token_length token"
  let ?s2 = "\<lparr>texts = rest, startText = Some t, endText = Some t,
              startOffset = 0, endOffset = ?len, start = 0, decorations = []\<rparr>"
  have "\<exists>s'. while_loop ?len (int (length (text_of t))) ?len ?s2 = Some (Inr s') \<and>
          texts s' = [] \<and> endText s' = Some (last (t # texts ?s2)) \<and>
          int (length (text_of (last (t # texts ?s2)))) < endOffset s' \<and>
          startText s' = startText ?s2 \<and> startOffset s' = startOffset ?s2 \<and>
          decorations s' = decorations ?s2"
  proof (rule while_loop_overflow [where x = 0])
    show "0 + int (length (text_of t)) + total_length (texts ?s2) < ?len"
      using assms(3) by (simp add: txts total_length_def)
  qed simp_all
  then obtain s' where w:
    "while_loop ?len (int (length (text_of t))) ?len ?s2 = Some (Inr s')"
    "endText s' = Some (last txts)" "int (length (text_of (last txts))) < endOffset s'"
    "startOffset s' = 0" "decorations s' = []"
    by (auto simp: txts)
  with assms(2) show ?thesis
    by (simp add: decorate_tokens_def for_body_def Let_def txts)
qed

lemma decorate_tokens_nil_iff:
  assumes "decorate_tokens txts tokens = Some (Inr rs)"
    "map marks rs = map (\<lambda>t. [Mark (token_type t)]) (filter (\<lambda>t. \<not> is_string t) tokens)"
  shows "rs = [] \<longleftrightarrow> list_all is_string tokens"
proof -
  have "rs = [] \<longleftrightarrow> map marks rs = []" by simp
  also have "\<dots> \<longleftrightarrow> filter (\<lambda>t. \<not> is_string t) tokens = []"
    by (simp add: assms(2))
  also have "\<dots> \<longleftrightarrow> list_all is_string tokens"
    by (simp add: filter_empty_conv list_all_iff)
  finally show ?thesis .
qed

lemma decorateNode_returns: "\<exists>r. decorateNode languages tokenize node = Some r"
proof (cases "ntype node = ''code''")
  case False
  then show ?thesis by (simp add: decorateNode_def)
next
  case True
  let ?string = "js_join [newline] (map text_of (getTexts node))"
  let ?grammar = "languages (property_key (data node ''language''))"
  show ?thesis
  proof (cases "tokenize ?string ?grammar")
    case (Inl e)
    with True show ?thesis by (simp add: decorateNode_def Let_def)
  next
    case (Inr tokens)
    from decorate_tokens_returns [of "getTexts node" tokens]
    obtain r where r: "decorate_tokens (getTexts node) tokens = Some r" ..
    from True Inr r show ?thesis
      by (cases r) (simp_all add: decorateNode_def Let_def)
  qed
qed

text \<open>The equations that evaluate the function on a concrete input.\<close>

lemmas run_simps =
  decorateNode_def decorate_tokens_def for_body_def token_length_def given_tokens_def
  while_loop.simps newline_def Let_def

section \<open>The claims\<close>

subsection \<open>Worked inputs\<close>

text \<open>
  Claim C1. For the two texts \<open>ab\<close> and \<open>cd\<close>, joined as \<open>ab\<newline>cd\<close>, and the token
  stream of the plain string \<open>a\<close> followed by the token of type \<open>tag\<close> with content
  \<open>b\<newline>c\<close>, \<^verbatim>\<open>decorateNode\<close> returns exactly one range, from offset 1 of the first text
  to offset 1 of the second. The content has three characters and the token counts for
  two: the newline is not counted.
\<close>

theorem cross_segment_split:
  "decorateNode languages (given_tokens [Plain ''a'', Leaf ''tag'' ''b\<newline>c''])
     \<lparr>ntype = ''code'', data = d,
      getTexts = [\<lparr>key = k0, text_of = ''ab''\<rparr>, \<lparr>key = k1, text_of = ''cd''\<rparr>]\<rparr>
   = Some (Inr (Some [\<lparr>anchorKey = k0, anchorOffset = 1, focusKey = k1, focusOffset = 1,
                        marks = [Mark ''tag'']\<rparr>]))
   \<and> js_join [newline] (map text_of [\<lparr>key = k0, text_of = ''ab''\<rparr>, \<lparr>key = k1, text_of = ''cd''\<rparr>])
       = ''ab\<newline>cd''
   \<and> length (getContent (Leaf ''tag'' ''b\<newline>c'')) = 3
   \<and> token_length (Leaf ''tag'' ''b\<newline>c'') = 2"
  by (simp add: run_simps)

text \<open>
  Claim C6. For the single text \<open>let x = 1;\<close> and the token stream keyword \<open>let\<close>, plain
  \<open> x = \<close>, number \<open>1\<close>, plain \<open>;\<close>, the claim expects a keyword range over offsets 0 to 3
  and a number range over offsets 9 to 10. The function does not return that: the digit is
  the ninth character, so the number range runs from offset 8 to offset 9.
\<close>

theorem single_segment_claimed_ranges_counterexample:
  "decorateNode js_languages
     (given_tokens [Leaf ''keyword'' ''let'', Plain '' x = '', Leaf ''number'' ''1'', Plain '';''])
     \<lparr>ntype = ''code'', data = [''language'' \<mapsto> ''js''],
      getTexts = [\<lparr>key = ''k0'', text_of = ''let x = 1;''\<rparr>]\<rparr>
   \<noteq> Some (Inr (Some [\<lparr>anchorKey = ''k0'', anchorOffset = 0, focusKey = ''k0'', focusOffset = 3,
                        marks = [Mark ''keyword'']\<rparr>,
                      \<lparr>anchorKey = ''k0'', anchorOffset = 9, focusKey = ''k0'', focusOffset = 10,
                        marks = [Mark ''number'']\<rparr>]))"
  by (simp add: run_simps)

text \<open>
  Claim C6, amended. On that input \<^verbatim>\<open>decorateNode\<close> returns exactly two ranges: the
  keyword range over offsets 0 to 3 and the number range over offsets 8 to 9.
\<close>

theorem single_segment_ranges:
  "decorateNode languages
     (given_tokens [Leaf ''keyword'' ''let'', Plain '' x = '', Leaf ''number'' ''1'', Plain '';''])
     \<lparr>ntype = ''code'', data = d, getTexts = [\<lparr>key = k0, text_of = ''let x = 1;''\<rparr>]\<rparr>
   = Some (Inr (Some [\<lparr>anchorKey = k0, anchorOffset = 0, focusKey = k0, focusOffset = 3,
                        marks = [Mark ''keyword'']\<rparr>,
                      \<lparr>anchorKey = k0, anchorOffset = 8, focusKey = k0, focusOffset = 9,
                        marks = [Mark ''number'']\<rparr>]))"
  by (simp add: run_simps)

subsection \<open>Tokens that cross more than one boundary\<close>

text \<open>
  Claim C2 asks that the ranges cover the spans of the token objects exactly. The three
  texts \<open>a`b\<close>, \<open>cd\<close>, \<open>e`f;\<close> and the stream plain \<open>a\<close>, a string token from the first
  backquote to the second, plain \<open>f\<close>, punctuation \<open>;\<close> match: the contents concatenate to
  the joined text. The string token ends after two characters of the third text and the
  punctuation token is its fourth character. The function instead ends the string range
  at offset 4 of the third text, over \<open>f\<close> and \<open>;\<close>, and puts the punctuation range at
  offsets 5 to 6, past the end of a text of four characters: inside the loop the
  assignment \<^verbatim>\<open>remaining = length - available\<close> subtracts the size of the text just left from
  the whole token length, forgetting what earlier texts already took.
\<close>

theorem three_segment_token_overlaps:
  "decorateNode languages
     (given_tokens [Plain ''a'', Leaf ''string'' ''`b\<newline>cd\<newline>e`'', Plain ''f'',
                    Leaf ''punctuation'' '';''])
     \<lparr>ntype = ''code'', data = d,
      getTexts = [\<lparr>key = k0, text_of = ''a`b''\<rparr>, \<lparr>key = k1, text_of = ''cd''\<rparr>,
                  \<lparr>key = k2, text_of = ''e`f;''\<rparr>]\<rparr>
   = Some (Inr (Some [\<lparr>anchorKey = k0, anchorOffset = 1, focusKey = k2, focusOffset = 4,
                        marks = [Mark ''string'']\<rparr>,
                      \<lparr>anchorKey = k2, anchorOffset = 5, focusKey = k2, focusOffset = 6,
                        marks = [Mark ''punctuation'']\<rparr>]))
   \<and> concat (map getContent [Plain ''a'', Leaf ''string'' ''`b\<newline>cd\<newline>e`'', Plain ''f'',
                    Leaf ''punctuation'' '';''])
       = js_join [newline] (map text_of [\<lparr>key = k0, text_of = ''a`b''\<rparr>,
                  \<lparr>key = k1, text_of = ''cd''\<rparr>, \<lparr>key = k2, text_of = ''e`f;''\<rparr>])
   \<and> length (text_of \<lparr>key = k2, text_of = ''e`f;''\<rparr>) = 4"
  by (simp add: run_simps)

text \<open>
  Claim C3 asks that every offset of a range lies within its text, also for a token that
  spans three texts. The three texts \<open>/*a\<close>, \<open>b\<close>, \<open>c*/\<close> and the single comment token over
  all of the joined text match. The function returns a range whose focus is offset 6 of
  the third text, which has three characters.
\<close>

theorem three_segment_token_out_of_bounds:
  "decorateNode languages (given_tokens [Leaf ''comment'' ''/*a\<newline>b\<newline>c*/''])
     \<lparr>ntype = ''code'', data = d,
      getTexts = [\<lparr>key = k0, text_of = ''/*a''\<rparr>, \<lparr>key = k1, text_of = ''b''\<rparr>,
                  \<lparr>key = k2, text_of = ''c*/''\<rparr>]\<rparr>
   = Some (Inr (Some [\<lparr>anchorKey = k0, anchorOffset = 0, focusKey = k2, focusOffset = 6,
                        marks = [Mark ''comment'']\<rparr>]))
   \<and> concat (map getContent [Leaf ''comment'' ''/*a\<newline>b\<newline>c*/''])
       = js_join [newline] (map text_of [\<lparr>key = k0, text_of = ''/*a''\<rparr>,
                  \<lparr>key = k1, text_of = ''b''\<rparr>, \<lparr>key = k2, text_of = ''c*/''\<rparr>])
   \<and> length (text_of \<lparr>key = k2, text_of = ''c*/''\<rparr>) = 3"
  by (simp add: run_simps)

subsection \<open>A language without a grammar\<close>

text \<open>
  Claim C4 says that a code block whose language has no registered grammar yields an
  empty range sequence and no error. The function has no check of the grammar: it hands
  the missing grammar to the tokenizer. With a tokenizer that reads its grammar, the call
  raises; the node here is a block just turned into a code block, whose data has no
  language yet.
\<close>

theorem missing_grammar_raises_counterexample:
  "decorateNode js_languages strict_tokenize
     \<lparr>ntype = ''code'', data = Map.empty,
      getTexts = [\<lparr>key = ''k0'', text_of = ''x''\<rparr>]\<rparr>
   = Some (Inl TypeError)
   \<and> js_languages (property_key (Map.empty ''language'')) = None"
  by (simp add: run_simps js_languages_def)

text \<open>
  Claim C4, amended. For a code block with at least one text whose language has no
  registered grammar, \<^verbatim>\<open>decorateNode\<close> calls the tokenizer with the undefined grammar and
  its outcome is the tokenizer's: an error the tokenizer raises is raised by
  \<^verbatim>\<open>decorateNode\<close>, and when the tokenizer returns a token stream \<^verbatim>\<open>decorateNode\<close> returns
  a range sequence that is empty exactly when every token is a plain string.
\<close>

theorem missing_grammar_outcome:
  assumes "ntype node = ''code''" "getTexts node \<noteq> []"
    "languages (property_key (data node ''language'')) = None"
  shows "(\<forall>e. tokenize (js_join [newline] (map text_of (getTexts node))) None = Inl e \<longrightarrow>
            decorateNode languages tokenize node = Some (Inl e)) \<and>
         (\<forall>tokens. tokenize (js_join [newline] (map text_of (getTexts node))) None = Inr tokens \<longrightarrow>
            (\<exists>rs. decorateNode languages tokenize node = Some (Inr (Some rs)) \<and>
                  (rs = [] \<longleftrightarrow> list_all is_string tokens)))"
proof (intro conjI allI impI)
  fix e
  assume "tokenize (js_join [newline] (map text_of (getTexts node))) None = Inl e"
  with assms(1,3) show "decorateNode languages tokenize node = Some (Inl e)"
    by (simp add: decorateNode_def Let_def)
next
  fix tokens
  assume t: "tokenize (js_join [newline] (map text_of (getTexts node))) None = Inr tokens"
  from decorate_tokens_marks [OF assms(2), of tokens]
  obtain rs where rs: "decorate_tokens (getTexts node) tokens = Some (Inr rs)"
    "map marks rs = map (\<lambda>t. [Mark (token_type t)]) (filter (\<lambda>t. \<not> is_string t) tokens)"
    by blast
  from rs have "rs = [] \<longleftrightarrow> list_all is_string tokens"
    by (rule decorate_tokens_nil_iff)
  moreover from assms(1,3) t rs(1)
  have "decorateNode languages tokenize node = Some (Inr (Some rs))"
    by (simp add: decorateNode_def Let_def)
  ultimately show "\<exists>rs. decorateNode languages tokenize node = Some (Inr (Some rs)) \<and>
      (rs = [] \<longleftrightarrow> list_all is_string tokens)"
    by blast
qed

theorem missing_grammar_outcome_witness:
  "ntype \<lparr>ntype = ''code'', data = [''language'' \<mapsto> ''ruby''],
          getTexts = [\<lparr>key = ''k0'', text_of = ''x = 1''\<rparr>]\<rparr> = ''code'' \<and>
   getTexts \<lparr>ntype = ''code'', data = [''language'' \<mapsto> ''ruby''],
             getTexts = [\<lparr>key = ''k0'', text_of = ''x = 1''\<rparr>]\<rparr> \<noteq> [] \<and>
   js_languages (property_key
     (data \<lparr>ntype = ''code'', data = [''language'' \<mapsto> ''ruby''],
            getTexts = [\<lparr>key = ''k0'', text_of = ''x = 1''\<rparr>]\<rparr> ''language'')) = None \<and>
   decorateNode js_languages strict_tokenize
     \<lparr>ntype = ''code'', data = [''language'' \<mapsto> ''ruby''],
      getTexts = [\<lparr>key = ''k0'', text_of = ''x = 1''\<rparr>]\<rparr> = Some (Inl TypeError) \<and>
   (\<exists>rs. decorateNode js_languages (given_tokens [Plain ''x = 1''])
     \<lparr>ntype = ''code'', data = [''language'' \<mapsto> ''ruby''],
      getTexts = [\<lparr>key = ''k0'', text_of = ''x = 1''\<rparr>]\<rparr> = Some (Inr (Some rs)) \<and> rs = [])"
proof -
  let ?node = "\<lparr>ntype = ''code'', data = [''language'' \<mapsto> ''ruby''],
                getTexts = [\<lparr>key = ''k0'', text_of = ''x = 1''\<rparr>]\<rparr>"
  have h: "ntype ?node = ''code''" "getTexts ?node \<noteq> []"
    "js_languages (property_key (data ?node ''language'')) = None"
    by (simp_all add: js_languages_def)
  from missing_grammar_outcome
    [where node = ?node and languages = js_languages and tokenize = strict_tokenize, OF h]
  have a: "decorateNode js_languages strict_tokenize ?node = Some (Inl TypeError)"
    by simp
  from missing_grammar_outcome
    [where node = ?node and languages = js_languages
       and tokenize = "given_tokens [Plain ''x = 1'']", OF h]
  have b: "\<exists>rs. decorateNode js_languages (given_tokens [Plain ''x = 1'']) ?node
                  = Some (Inr (Some rs)) \<and> rs = []"
    by (simp add: given_tokens_def)
  from h a b show ?thesis by blast
qed

subsection \<open>Tokens longer than the text\<close>

text \<open>
  Claim C5 says that \<^verbatim>\<open>decorateNode\<close> raises a descriptive error when the tokens hold
  more characters than the texts. It raises nothing: for the text \<open>ab\<close> and a token with
  content \<open>abcd\<close> it returns a range that ends at offset 4.
\<close>

theorem overlong_token_no_error_counterexample:
  "decorateNode js_languages (given_tokens [Leaf ''keyword'' ''abcd''])
     \<lparr>ntype = ''code'', data = [''language'' \<mapsto> ''js''],
      getTexts = [\<lparr>key = ''k0'', text_of = ''ab''\<rparr>]\<rparr>
   = Some (Inr (Some [\<lparr>anchorKey = ''k0'', anchorOffset = 0, focusKey = ''k0'', focusOffset = 4,
                        marks = [Mark ''keyword'']\<rparr>]))
   \<and> total_length [\<lparr>key = ''k0'', text_of = ''ab''\<rparr>] < token_length (Leaf ''keyword'' ''abcd'')"
  by (simp add: run_simps total_length_def)

text \<open>
  Claim C5, amended. For a code block with at least one text, \<^verbatim>\<open>decorateNode\<close> raises no
  error whatever token stream the tokenizer returns: the inner loop stops when no text is
  left and the ranges are returned. When the stream is a single token object that counts
  more characters than all the texts hold, the one range returned has its focus in the
  last text, at an offset beyond the end of that text.
\<close>

theorem overlong_token_outcome:
  assumes "ntype node = ''code''" "getTexts node \<noteq> []"
    "tokenize (js_join [newline] (map text_of (getTexts node)))
       (languages (property_key (data node ''language''))) = Inr tokens"
  shows "(\<exists>rs. decorateNode languages tokenize node = Some (Inr (Some rs))) \<and>
         (tokens = [token] \<and> \<not> is_string token \<and>
          total_length (getTexts node) < token_length token \<longrightarrow>
            (\<exists>r. decorateNode languages tokenize node = Some (Inr (Some [r])) \<and>
                 focusKey r = key (last (getTexts node)) \<and>
                 int (length (text_of (last (getTexts node)))) < focusOffset r))"
proof (intro conjI impI)
  from decorate_tokens_marks [OF assms(2), of tokens]
  obtain rs where "decorate_tokens (getTexts node) tokens = Some (Inr rs)" by blast
  with assms(1,3) show "\<exists>rs. decorateNode languages tokenize node = Some (Inr (Some rs))"
    by (simp add: decorateNode_def Let_def)
next
  assume a: "tokens = [token] \<and> \<not> is_string token \<and>
             total_length (getTexts node) < token_length token"
  then have "\<exists>r. decorate_tokens (getTexts node) [token] = Some (Inr [r]) \<and>
               focusKey r = key (last (getTexts node)) \<and>
               int (length (text_of (last (getTexts node)))) < focusOffset r"
    using assms(2) by (intro decorate_tokens_overlong_token) simp_all
  then obtain r where r: "decorate_tokens (getTexts node) tokens = Some (Inr [r])"
    "focusKey r = key (last (getTexts node))"
    "int (length (text_of (last (getTexts node)))) < focusOffset r"
    using a by auto
  from assms(1,3) r(1) have "decorateNode languages tokenize node = Some (Inr (Some [r]))"
    by (simp add: decorateNode_def Let_def)
  with r(2,3) show "\<exists>r. decorateNode languages tokenize node = Some (Inr (Some [r])) \<and>
      focusKey r = key (last (getTexts node)) \<and>
      int (length (text_of (last (getTexts node)))) < focusOffset r"
    by blast
qed

theorem overlong_token_outcome_witness:
  "ntype \<lparr>ntype = ''code'', data = [''language'' \<mapsto> ''js''],
          getTexts = [\<lparr>key = ''k0'', text_of = ''ab''\<rparr>, \<lparr>key = ''k1'', text_of = ''c''\<rparr>]\<rparr> = ''code'' \<and>
   getTexts \<lparr>ntype = ''code'', data = [''language'' \<mapsto> ''js''],
          getTexts = [\<lparr>key = ''k0'', text_of = ''ab''\<rparr>, \<lparr>key = ''k1'', text_of = ''c''\<rparr>]\<rparr> \<noteq> [] \<and>
   given_tokens [Leaf ''keyword'' ''abcdef'']
     (js_join [newline] (map text_of [\<lparr>key = ''k0'', text_of = ''ab''\<rparr>, \<lparr>key = ''k1'', text_of = ''c''\<rparr>]))
     (js_languages ''js'') = Inr [Leaf ''keyword'' ''abcdef''] \<and>
   \<not> is_string (Leaf ''keyword'' ''abcdef'') \<and>
   total_length [\<lparr>key = ''k0'', text_of = ''ab''\<rparr>, \<lparr>key = ''k1'', text_of = ''c''\<rparr>]
     < token_length (Leaf ''keyword'' ''abcdef'') \<and>
   (\<exists>r. decorateNode js_languages (given_tokens [Leaf ''keyword'' ''abcdef''])
          \<lparr>ntype = ''code'', data = [''language'' \<mapsto> ''js''],
           getTexts = [\<lparr>key = ''k0'', text_of = ''ab''\<rparr>, \<lparr>key = ''k1'', text_of = ''c''\<rparr>]\<rparr>
        = Some (Inr (Some [r])) \<and> focusKey r = ''k1'' \<and> 1 < focusOffset r)"
proof -
  let ?node = "\<lparr>ntype = ''code'', data = [''language'' \<mapsto> ''js''],
          getTexts = [\<lparr>key = ''k0'', text_of = ''ab''\<rparr>, \<lparr>key = ''k1'', text_of = ''c''\<rparr>]\<rparr>"
  let ?token = "Leaf ''keyword'' ''abcdef''"
  have h: "ntype ?node = ''code''" "getTexts ?node \<noteq> []"
    "given_tokens [?token] (js_join [newline] (map text_of (getTexts ?node)))
       (js_languages (property_key (data ?node ''language''))) = Inr [?token]"
    by (simp_all add: given_tokens_def)
  have g: "\<not> is_string ?token" "total_length (getTexts ?node) < token_length ?token"
    by (simp_all add: total_length_def token_length_def newline_def)
  from overlong_token_outcome
    [where node = ?node and languages = js_languages and tokenize = "given_tokens [?token]"
       and tokens = "[?token]" and token = ?token, OF h] g
  have "\<exists>r. decorateNode js_languages (given_tokens [?token]) ?node = Some (Inr (Some [r])) \<and>
            focusKey r = ''k1'' \<and> 1 < focusOffset r"
    by simp
  with h g show ?thesis by (simp add: given_tokens_def)
qed

subsection \<open>One range per token object\<close>

text \<open>
  Claim C7. For a code block with at least one text and any token stream the tokenizer
  returns, \<^verbatim>\<open>decorateNode\<close> returns one range for each token object and none for a plain
  string, in the order of the tokens, and the marks of each range are the one mark that
  carries the type of its token. The token stream need not even match the texts.
\<close>

theorem one_range_per_structured_token:
  assumes "ntype node = ''code''" "getTexts node \<noteq> []"
    "tokenize (js_join [newline] (map text_of (getTexts node)))
       (languages (property_key (data node ''language''))) = Inr tokens"
  shows "\<exists>rs. decorateNode languages tokenize node = Some (Inr (Some rs)) \<and>
           length rs = length (filter (\<lambda>t. \<not> is_string t) tokens) \<and>
           map marks rs =
             map (\<lambda>t. [Mark (token_type t)]) (filter (\<lambda>t. \<not> is_string t) tokens)"
proof -
  from decorate_tokens_marks [OF assms(2), of tokens]
  obtain rs where rs: "decorate_tokens (getTexts node) tokens = Some (Inr rs)"
    "map marks rs = map (\<lambda>t. [Mark (token_type t)]) (filter (\<lambda>t. \<not> is_string t) tokens)"
    by blast
  from rs(2) have "length (map marks rs) =
      length (map (\<lambda>t. [Mark (token_type t)]) (filter (\<lambda>t. \<not> is_string t) tokens))"
    by simp
  then have "length rs = length (filter (\<lambda>t. \<not> is_string t) tokens)" by simp
  with rs decorateNode_code [of node tokenize languages tokens] assms(1,3)
  show ?thesis by simp
qed

theorem one_range_per_structured_token_witness:
  "ntype \<lparr>ntype = ''code'', data = [''language'' \<mapsto> ''js''],
          getTexts = [\<lparr>key = ''k0'', text_of = ''if (a)''\<rparr>, \<lparr>key = ''k1'', text_of = ''b;''\<rparr>]\<rparr> = ''code'' \<and>
   getTexts \<lparr>ntype = ''code'', data = [''language'' \<mapsto> ''js''],
          getTexts = [\<lparr>key = ''k0'', text_of = ''if (a)''\<rparr>, \<lparr>key = ''k1'', text_of = ''b;''\<rparr>]\<rparr> \<noteq> [] \<and>
   given_tokens [Leaf ''keyword'' ''if'', Plain '' '', Leaf ''punctuation'' ''('', Plain ''a'',
                 Leaf ''punctuation'' '')'', Plain ''\<newline>b'', Leaf ''punctuation'' '';'']
     (js_join [newline] (map text_of [\<lparr>key = ''k0'', text_of = ''if (a)''\<rparr>, \<lparr>key = ''k1'', text_of = ''b;''\<rparr>]))
     (js_languages ''js'')
   = Inr [Leaf ''keyword'' ''if'', Plain '' '', Leaf ''punctuation'' ''('', Plain ''a'',
          Leaf ''punctuation'' '')'', Plain ''\<newline>b'', Leaf ''punctuation'' '';''] \<and>
   (\<exists>rs. decorateNode js_languages
           (given_tokens [Leaf ''keyword'' ''if'', Plain '' '', Leaf ''punctuation'' ''('', Plain ''a'',
                          Leaf ''punctuation'' '')'', Plain ''\<newline>b'', Leaf ''punctuation'' '';''])
           \<lparr>ntype = ''code'', data = [''language'' \<mapsto> ''js''],
            getTexts = [\<lparr>key = ''k0'', text_of = ''if (a)''\<rparr>, \<lparr>key = ''k1'', text_of = ''b;''\<rparr>]\<rparr>
         = Some (Inr (Some rs)) \<and>
         length rs = 4 \<and>
         map marks rs = [[Mark ''keyword''], [Mark ''punctuation''], [Mark ''punctuation''],
                         [Mark ''punctuation'']])"
proof -
  let ?node = "\<lparr>ntype = ''code'', data = [''language'' \<mapsto> ''js''],
          getTexts = [\<lparr>key = ''k0'', text_of = ''if (a)''\<rparr>, \<lparr>key = ''k1'', text_of = ''b;''\<rparr>]\<rparr>"
  let ?tokens = "[Leaf ''keyword'' ''if'', Plain '' '', Leaf ''punctuation'' ''('', Plain ''a'',
                  Leaf ''punctuation'' '')'', Plain ''\<newline>b'', Leaf ''punctuation'' '';'']"
  have h: "ntype ?node = ''code''" "getTexts ?node \<noteq> []"
    "given_tokens ?tokens (js_join [newline] (map text_of (getTexts ?node)))
       (js_languages (property_key (data ?node ''language''))) = Inr ?tokens"
    by (simp_all add: given_tokens_def)
  from one_range_per_structured_token
    [where node = ?node and languages = js_languages and tokenize = "given_tokens ?tokens"
       and tokens = ?tokens, OF h]
  have "\<exists>rs. decorateNode js_languages (given_tokens ?tokens) ?node = Some (Inr (Some rs)) \<and>
            length rs = 4 \<and>
            map marks rs = [[Mark ''keyword''], [Mark ''punctuation''], [Mark ''punctuation''],
                            [Mark ''punctuation'']]"
    by (simp add: eval_nat_numeral)
  with h show ?thesis by (simp add: given_tokens_def)
qed

subsection \<open>Flattened content\<close>

text \<open>
  Claim C8. \<^verbatim>\<open>getContent\<close> returns the flattened textual content of a token: the string
  itself, the string content of a token object, or the flattened contents of the nested
  tokens concatenated in order with no separator, at any depth, which is the
  concatenation of the strings at the leaves. The loop body treats a token with nested
  content, in every state, exactly as it treats a token of the same type whose content is
  that concatenation, so nesting by itself never changes a range. The claim goes on to
  say that the one range of such a token spans the concatenation, and that fails for a
  nested token that runs over three texts: for the texts \<open>a`b\<close>, \<open>cd\<close>, \<open>e`f;\<close> and the
  matching stream plain \<open>a\<close>, a template string token of three children from the first
  backquote to the second, plain \<open>f\<close>, punctuation \<open>;\<close>, the concatenation ends after two
  characters of the third text, and the range of the template string ends at offset 4.
\<close>

theorem nested_token_range_over_three_texts:
  "getContent token = getContent_spec token \<and>
   getContent_spec token = concat (leaf_strings token) \<and>
   for_body (Nested ty ts) s = for_body (Leaf ty (concat (map getContent_spec ts))) s \<and>
   decorateNode languages
     (given_tokens [Plain ''a'',
                    Nested ''template-string''
                      [Leaf ''template-punctuation'' ''`'', Leaf ''string'' ''b\<newline>cd\<newline>e'',
                       Leaf ''template-punctuation'' ''`''],
                    Plain ''f'', Leaf ''punctuation'' '';''])
     \<lparr>ntype = ''code'', data = d,
      getTexts = [\<lparr>key = k0, text_of = ''a`b''\<rparr>, \<lparr>key = k1, text_of = ''cd''\<rparr>,
                  \<lparr>key = k2, text_of = ''e`f;''\<rparr>]\<rparr>
   = Some (Inr (Some [\<lparr>anchorKey = k0, anchorOffset = 1, focusKey = k2, focusOffset = 4,
                        marks = [Mark ''template-string'']\<rparr>,
                      \<lparr>anchorKey = k2, anchorOffset = 5, focusKey = k2, focusOffset = 6,
                        marks = [Mark ''punctuation'']\<rparr>])) \<and>
   getContent (Nested ''template-string''
                 [Leaf ''template-punctuation'' ''`'', Leaf ''string'' ''b\<newline>cd\<newline>e'',
                  Leaf ''template-punctuation'' ''`''])
     = ''`b\<newline>cd\<newline>e`'' \<and>
   concat (map getContent
     [Plain ''a'',
      Nested ''template-string''
        [Leaf ''template-punctuation'' ''`'', Leaf ''string'' ''b\<newline>cd\<newline>e'',
         Leaf ''template-punctuation'' ''`''],
      Plain ''f'', Leaf ''punctuation'' '';''])
     = js_join [newline] (map text_of [\<lparr>key = k0, text_of = ''a`b''\<rparr>,
                  \<lparr>key = k1, text_of = ''cd''\<rparr>, \<lparr>key = k2, text_of = ''e`f;''\<rparr>])"
proof (intro conjI)
  show "getContent token = getContent_spec token" by (rule getContent_refines_spec)
  show "getContent_spec token = concat (leaf_strings token)" by (rule getContent_spec_leaves)
  have "getContent (Nested ty ts) = getContent (Leaf ty (concat (map getContent_spec ts)))"
    by (simp only: getContent_refines_spec getContent_spec.simps)
  then have "token_length (Nested ty ts) =
             token_length (Leaf ty (concat (map getContent_spec ts)))"
    by (simp only: token_length_def)
  then show "for_body (Nested ty ts) s =
             for_body (Leaf ty (concat (map getContent_spec ts))) s"
    by (simp add: for_body_def Let_def cong: option.case_cong sum.case_cong)
qed (simp_all add: run_simps)

subsection \<open>Termination\<close>

text \<open>
  Claim C9. \<^verbatim>\<open>decorateNode\<close> returns on every input, whatever the texts, empty ones
  included: the inner loop returns from every state, each of its iterations takes one text
  off the queue, and it never leaves the queue longer. The claim adds that an empty text
  contributes zero characters, and that fails. The loop passes the empty text, but on
  leaving it the assignment \<^verbatim>\<open>remaining = length - available\<close> starts again from the whole
  token length, so what the texts before the empty one took is forgotten: for the texts
  \<open>/*a\<close>, empty, \<open>b*/\<close> and the one comment token over the joined text the range ends at
  offset 6 of the last text, which has three characters, where without the empty text the
  range ends at offset 3.
\<close>

theorem terminates_but_empty_text_restarts_count:
  "(\<exists>r. decorateNode languages tokenize node = Some r) \<and>
   (\<exists>s'. while_loop len available remaining s = Some (Inr s') \<and>
         length (texts s') \<le> length (texts s)) \<and>
   (available < remaining \<and> texts s = t # rest \<longrightarrow>
      while_loop len available remaining s =
        while_loop len (int (length (text_of t))) (len - available)
          (s\<lparr>texts := rest, endText := Some t, endOffset := len - available\<rparr>)) \<and>
   decorateNode js_languages (given_tokens [Leaf ''comment'' ''/*a\<newline>\<newline>b*/''])
     \<lparr>ntype = ''code'', data = d,
      getTexts = [\<lparr>key = k0, text_of = ''/*a''\<rparr>, \<lparr>key = k1, text_of = []\<rparr>,
                  \<lparr>key = k2, text_of = ''b*/''\<rparr>]\<rparr>
   = Some (Inr (Some [\<lparr>anchorKey = k0, anchorOffset = 0, focusKey = k2, focusOffset = 6,
                        marks = [Mark ''comment'']\<rparr>])) \<and>
   concat (map getContent [Leaf ''comment'' ''/*a\<newline>\<newline>b*/''])
     = js_join [newline] (map text_of [\<lparr>key = k0, text_of = ''/*a''\<rparr>,
                  \<lparr>key = k1, text_of = []\<rparr>, \<lparr>key = k2, text_of = ''b*/''\<rparr>]) \<and>
   length (text_of \<lparr>key = k2, text_of = ''b*/''\<rparr>) = 3 \<and>
   decorateNode js_languages (given_tokens [Leaf ''comment'' ''/*a\<newline>b*/''])
     \<lparr>ntype = ''code'', data = d,
      getTexts = [\<lparr>key = k0, text_of = ''/*a''\<rparr>, \<lparr>key = k2, text_of = ''b*/''\<rparr>]\<rparr>
   = Some (Inr (Some [\<lparr>anchorKey = k0, anchorOffset = 0, focusKey = k2, focusOffset = 3,
                        marks = [Mark ''comment'']\<rparr>]))"
proof (intro conjI impI)
  show "\<exists>r. decorateNode languages tokenize node = Some r"
    by (rule decorateNode_returns)
  show "\<exists>s'. while_loop len available remaining s = Some (Inr s') \<and>
          length (texts s') \<le> length (texts s)"
    by (rule while_loop_returns)
next
  assume "available < remaining \<and> texts s = t # rest"
  then show "while_loop len available remaining s =
        while_loop len (int (length (text_of t))) (len - available)
          (s\<lparr>texts := rest, endText := Some t, endOffset := len - available\<rparr>)"
    by (subst while_loop.simps) simp
qed (simp_all add: run_simps)

theorem terminates_but_empty_text_restarts_count_witness:
  "(1::int) < 3 \<and>
   texts \<lparr>texts = [\<lparr>key = ''k2'', text_of = ''cd''\<rparr>], startText = Some \<lparr>key = ''k0'', text_of = ''ab''\<rparr>,
          endText = Some \<lparr>key = ''k1'', text_of = ''x''\<rparr>, startOffset = 0, endOffset = 3,
          start = 0, decorations = []\<rparr> = [\<lparr>key = ''k2'', text_of = ''cd''\<rparr>] \<and>
   while_loop 5 1 3
     \<lparr>texts = [\<lparr>key = ''k2'', text_of = ''cd''\<rparr>], startText = Some \<lparr>key = ''k0'', text_of = ''ab''\<rparr>,
      endText = Some \<lparr>key = ''k1'', text_of = ''x''\<rparr>, startOffset = 0, endOffset = 3,
      start = 0, decorations = []\<rparr>
   = while_loop 5 2 4
     \<lparr>texts = [], startText = Some \<lparr>key = ''k0'', text_of = ''ab''\<rparr>,
      endText = Some \<lparr>key = ''k2'', text_of = ''cd''\<rparr>, startOffset = 0, endOffset = 4,
      start = 0, decorations = []\<rparr> \<and>
   (\<exists>r. decorateNode js_languages
          (given_tokens [Leaf ''keyword'' ''ab'', Plain ''\<newline>\<newline>'', Leaf ''number'' ''cd''])
          \<lparr>ntype = ''code'', data = [''language'' \<mapsto> ''js''],
           getTexts = [\<lparr>key = ''k0'', text_of = ''ab''\<rparr>, \<lparr>key = ''k1'', text_of = []\<rparr>,
                       \<lparr>key = ''k2'', text_of = ''cd''\<rparr>]\<rparr> = Some r)"
proof -
  let ?t = "\<lparr>key = ''k2'', text_of = ''cd''\<rparr>"
  let ?s = "\<lparr>texts = [?t], startText = Some \<lparr>key = ''k0'', text_of = ''ab''\<rparr>,
            endText = Some \<lparr>key = ''k1'', text_of = ''x''\<rparr>, startOffset = 0, endOffset = 3,
            start = 0, decorations = []\<rparr>"
  let ?node = "\<lparr>ntype = ''code'', data = [''language'' \<mapsto> ''js''],
           getTexts = [\<lparr>key = ''k0'', text_of = ''ab''\<rparr>, \<lparr>key = ''k1'', text_of = []\<rparr>,
                       \<lparr>key = ''k2'', text_of = ''cd''\<rparr>]\<rparr>"
  have h: "(1::int) < 3 \<and> texts ?s = ?t # []" by simp
  from terminates_but_empty_text_restarts_count
    [where languages = js_languages
       and tokenize = "given_tokens [Leaf ''keyword'' ''ab'', Plain ''\<newline>\<newline>'', Leaf ''number'' ''cd'']"
       and node = ?node and len = 5 and available = 1 and remaining = 3 and s = ?s
       and t = ?t and rest = "[]"]
  have "\<exists>r. decorateNode js_languages
          (given_tokens [Leaf ''keyword'' ''ab'', Plain ''\<newline>\<newline>'', Leaf ''number'' ''cd''])
          ?node = Some r"
    and "(1::int) < 3 \<and> texts ?s = ?t # [] \<longrightarrow>
      while_loop 5 1 3 ?s =
        while_loop 5 (int (length (text_of ?t))) (5 - 1)
          (?s\<lparr>texts := [], endText := Some ?t, endOffset := 5 - 1\<rparr>)"
    by blast+
  with h show ?thesis by simp
qed

subsection \<open>The cursor moves forward\<close>

text \<open>
  Claim C10. Whenever \<^verbatim>\<open>decorateNode\<close> returns ranges for a node whose texts have distinct
  keys, every range has its focus at or after its anchor: the focus text is the anchor
  text or a later one of the node's texts, and in the same text the focus offset is at
  least the anchor offset. The anchors of the ranges are in non-decreasing order of
  (text index, offset), any two of them and so successive ones.
\<close>

theorem ranges_run_forward:
  assumes "distinct (map key (getTexts node))"
    "decorateNode languages tokenize node = Some (Inr (Some rs))"
  shows "(\<forall>r \<in> set rs.
            index_of (anchorKey r) (getTexts node) \<le> index_of (focusKey r) (getTexts node) \<and>
            index_of (focusKey r) (getTexts node) < length (getTexts node) \<and>
            (index_of (anchorKey r) (getTexts node) = index_of (focusKey r) (getTexts node)
               \<longrightarrow> anchorOffset r \<le> focusOffset r)) \<and>
         sorted_wrt (\<lambda>r r'. pos_le (anchor_pos (getTexts node) r) (anchor_pos (getTexts node) r')) rs"
proof -
  from assms(2) obtain tokens where "decorate_tokens (getTexts node) tokens = Some (Inr rs)"
    by (auto simp: decorateNode_def Let_def split: if_splits sum.splits option.splits)
  from decorate_tokens_positions [OF assms(1) this]
  obtain c where "ranges_ok (getTexts node) c rs" ..
  then show ?thesis
    unfolding ranges_ok_def list_all_iff pos_le_def anchor_pos_def focus_pos_def
    by auto
qed

theorem ranges_run_forward_witness:
  "distinct (map key [\<lparr>key = ''k0'', text_of = ''ab''\<rparr>, \<lparr>key = ''k1'', text_of = ''cd''\<rparr>]) \<and>
   decorateNode js_languages
     (given_tokens [Leaf ''keyword'' ''a'', Leaf ''tag'' ''b\<newline>c'', Plain ''d''])
     \<lparr>ntype = ''code'', data = [''language'' \<mapsto> ''js''],
      getTexts = [\<lparr>key = ''k0'', text_of = ''ab''\<rparr>, \<lparr>key = ''k1'', text_of = ''cd''\<rparr>]\<rparr>
   = Some (Inr (Some [\<lparr>anchorKey = ''k0'', anchorOffset = 0, focusKey = ''k0'', focusOffset = 1,
                        marks = [Mark ''keyword'']\<rparr>,
                      \<lparr>anchorKey = ''k0'', anchorOffset = 1, focusKey = ''k1'', focusOffset = 1,
                        marks = [Mark ''tag'']\<rparr>])) \<and>
   sorted_wrt (\<lambda>r r'. pos_le
        (anchor_pos [\<lparr>key = ''k0'', text_of = ''ab''\<rparr>, \<lparr>key = ''k1'', text_of = ''cd''\<rparr>] r)
        (anchor_pos [\<lparr>key = ''k0'', text_of = ''ab''\<rparr>, \<lparr>key = ''k1'', text_of = ''cd''\<rparr>] r'))
     [\<lparr>anchorKey = ''k0'', anchorOffset = 0, focusKey = ''k0'', focusOffset = 1,
        marks = [Mark ''keyword'']\<rparr>,
      \<lparr>anchorKey = ''k0'', anchorOffset = 1, focusKey = ''k1'', focusOffset = 1,
        marks = [Mark ''tag'']\<rparr>] \<and>
   index_of ''k0'' [\<lparr>key = ''k0'', text_of = ''ab''\<rparr>, \<lparr>key = ''k1'', text_of = ''cd''\<rparr>]
     \<le> index_of ''k1'' [\<lparr>key = ''k0'', text_of = ''ab''\<rparr>, \<lparr>key = ''k1'', text_of = ''cd''\<rparr>] \<and>
   index_of ''k1'' [\<lparr>key = ''k0'', text_of = ''ab''\<rparr>, \<lparr>key = ''k1'', text_of = ''cd''\<rparr>] < 2"
proof -
  let ?txts = "[\<lparr>key = ''k0'', text_of = ''ab''\<rparr>, \<lparr>key = ''k1'', text_of = ''cd''\<rparr>]"
  let ?node = "\<lparr>ntype = ''code'', data = [''language'' \<mapsto> ''js''], getTexts = ?txts\<rparr>"
  let ?tokenize = "given_tokens [Leaf ''keyword'' ''a'', Leaf ''tag'' ''b\<newline>c'', Plain ''d'']"
  let ?r0 = "\<lparr>anchorKey = ''k0'', anchorOffset = 0, focusKey = ''k0'', focusOffset = 1,
              marks = [Mark ''keyword'']\<rparr>"
  let ?r1 = "\<lparr>anchorKey = ''k0'', anchorOffset = 1, focusKey = ''k1'', focusOffset = 1,
              marks = [Mark ''tag'']\<rparr>"
  have h1: "distinct (map key (getTexts ?node))" by simp
  have h2: "decorateNode js_languages ?tokenize ?node = Some (Inr (Some [?r0, ?r1]))"
    by (simp add: run_simps)
  from ranges_run_forward [OF h1 h2]
  have "sorted_wrt (\<lambda>r r'. pos_le (anchor_pos ?txts r) (anchor_pos ?txts r')) [?r0, ?r1]"
    and "index_of ''k0'' ?txts \<le> index_of ''k1'' ?txts"
    and "index_of ''k1'' ?txts < 2"
    by simp_all
  with h1 h2 show ?thesis by simp
qed

end
